theory Spec2Isabelle
  imports Complex_Main
begin

section \<open>WorldMap.jsx: values of the host language\<close>

text \<open>
  The component reads a parsed JSON document (\<open>land.geo.json\<close>) and inspects it with
  \<open>Array.isArray\<close>, \<open>.length\<close>, property access and truthiness tests, so the data is
  modelled as the dynamically typed values of the host language. Numbers are modelled
  as real numbers; the rounding of binary64 arithmetic is modelled where exactness is
  at stake, in the section on the arc's lift.
\<close>

datatype jsval =
    JUndefined
  | JNull
  | JBool bool
  | JNum real
  | JStr string
  | JArr "jsval list"
  | JObj "(string \<times> jsval) list"

datatype error = TypeError

text \<open>\<open>Array.isArray(v)\<close>.\<close>

fun isArray :: "jsval \<Rightarrow> bool" where
  "isArray (JArr es) = True"
| "isArray v = False"

text \<open>The truthiness test of \<open>if (v)\<close>, \<open>!v\<close> and \<open>a && b\<close>.\<close>

fun truthy :: "jsval \<Rightarrow> bool" where
  "truthy JUndefined = False"
| "truthy JNull = False"
| "truthy (JBool b) = b"
| "truthy (JNum r) = (r \<noteq> 0)"
| "truthy (JStr s) = (s \<noteq> [])"
| "truthy (JArr es) = True"
| "truthy (JObj kvs) = True"

text \<open>
  Property read \<open>v.k\<close> for a key \<open>k\<close> that no prototype defines (\<open>geometry\<close>,
  \<open>coordinates\<close>, \<open>type\<close>, \<open>features\<close>): it throws on \<open>null\<close> and \<open>undefined\<close>, is the
  stored value on an object that has the key, and \<open>undefined\<close> everywhere else.
\<close>

fun getProp :: "jsval \<Rightarrow> string \<Rightarrow> error + jsval" where
  "getProp JUndefined k = Inl TypeError"
| "getProp JNull k = Inl TypeError"
| "getProp (JObj kvs) k = Inr (case map_of kvs k of None \<Rightarrow> JUndefined | Some v \<Rightarrow> v)"
| "getProp v k = Inr JUndefined"

text \<open>Index read \<open>v[0]\<close> on a value that is neither \<open>null\<close> nor \<open>undefined\<close>.\<close>

fun index0 :: "jsval \<Rightarrow> jsval" where
  "index0 (JArr []) = JUndefined"
| "index0 (JArr (e # es)) = e"
| "index0 (JStr []) = JUndefined"
| "index0 (JStr (c # cs)) = JStr [c]"
| "index0 (JObj kvs) = (case map_of kvs ''0'' of None \<Rightarrow> JUndefined | Some v \<Rightarrow> v)"
| "index0 v = JUndefined"

text \<open>
  The remainder operator \<open>a % b\<close> on numbers: the quotient is truncated toward zero, so
  the result has the sign of the dividend.
\<close>

definition js_trunc :: "real \<Rightarrow> int" where
  "js_trunc x = (if x < 0 then \<lceil>x\<rceil> else \<lfloor>x\<rfloor>)"

definition js_rem :: "real \<Rightarrow> real \<Rightarrow> real" where
  "js_rem a b = a - b * of_int (js_trunc (a / b))"

section \<open>Scene set-up: renderer and camera\<close>

record renderer =
  pixelRatio :: real
  width :: real
  height :: real
  clearColor :: nat
  clearAlpha :: real

text \<open>
  Lines 14-20: the renderer is created with the pixel ratio
  \<open>Math.min(window.devicePixelRatio, 2)\<close>, the window's size and a black clear colour.
\<close>

definition newRenderer :: "real \<Rightarrow> real \<Rightarrow> real \<Rightarrow> renderer" where
  "newRenderer devicePixelRatio innerWidth innerHeight =
     \<lparr>pixelRatio = min devicePixelRatio 2, width = innerWidth, height = innerHeight,
      clearColor = 0, clearAlpha = 1\<rparr>"

text \<open>
  The bounds of the orthographic camera (the field \<open>top\<close> is written \<open>top'\<close>) and its
  position on the z axis.
\<close>

record camera =
  left :: real
  right :: real
  top' :: real
  bottom :: real
  near :: real
  far :: real
  position_z :: real

definition WORLD_WIDTH :: real where
  "WORLD_WIDTH = 360"

definition WORLD_HEIGHT :: real where
  "WORLD_HEIGHT = 180"

text \<open>Lines 26-36: the orthographic camera built from the window's aspect ratio.\<close>

definition newCamera :: "real \<Rightarrow> real \<Rightarrow> camera" where
  "newCamera innerWidth innerHeight =
     (let aspect = innerWidth / innerHeight in
      \<lparr>left = - WORLD_WIDTH * aspect * 0.5,
       right = WORLD_WIDTH * aspect * 0.5,
       top' = WORLD_HEIGHT * 0.5,
       bottom = - WORLD_HEIGHT * 0.5,
       near = - 100,
       far = 100,
       position_z = 10\<rparr>)"

text \<open>
  Lines 182-188: the resize handler. It writes \<open>camera.left\<close> and \<open>camera.right\<close> and
  resizes the renderer; the state it touches is the pair of camera and renderer.
\<close>

definition resize :: "real \<Rightarrow> real \<Rightarrow> camera \<times> renderer \<Rightarrow> camera \<times> renderer" where
  "resize innerWidth innerHeight st =
     (let a = innerWidth / innerHeight;
          cam = fst st;
          rend = snd st
      in (cam\<lparr>left := - WORLD_WIDTH * a * 0.5, right := WORLD_WIDTH * a * 0.5\<rparr>,
          rend\<lparr>width := innerWidth, height := innerHeight\<rparr>))"

text \<open>
  The state after mounting in a window of size \<open>w0 \<times> h0\<close> with pixel density \<open>d\<close> and
  then receiving the resize events \<open>evs\<close> (the window sizes, oldest first).
\<close>

definition mounted :: "real \<Rightarrow> real \<Rightarrow> real \<Rightarrow> camera \<times> renderer" where
  "mounted d w0 h0 = (newCamera w0 h0, newRenderer d w0 h0)"

fun resizes :: "(real \<times> real) list \<Rightarrow> camera \<times> renderer \<Rightarrow> camera \<times> renderer" where
  "resizes [] st = st"
| "resizes ((w, h) # evs) st = resizes evs (resize w h st)"

section \<open>Animation tick\<close>

text \<open>
  Line 175: each tick stores \<open>(clock.getElapsedTime() * 0.25) % 1\<close> in the shader's
  \<open>time\<close> uniform. Rendering and the request for the next frame have no effect on it.
\<close>

record uniforms =
  time :: real

definition animate :: "real \<Rightarrow> uniforms \<Rightarrow> uniforms" where
  "animate elapsed u = u\<lparr>time := js_rem (elapsed * 0.25) 1\<rparr>"

section \<open>Geometry builder\<close>

datatype 'a vector2 = Vector2 (v2x: 'a) (v2y: 'a)

datatype 'a vector3 = Vector3 (v3x: 'a) (v3y: 'a) (v3z: 'a)

text \<open>The elements of an array value; only read behind an \<open>Array.isArray\<close> test.\<close>

fun elems :: "jsval \<Rightarrow> jsval list" where
  "elems (JArr es) = es"
| "elems v = []"

text \<open>
  Line 43: \<open>project = ([lon, lat]) => new THREE.Vector2(lon, lat)\<close>. The argument is
  destructured, so a missing component is \<open>undefined\<close>; the components are stored as
  they are.
\<close>

fun project :: "jsval list \<Rightarrow> jsval vector2" where
  "project (lon # lat # rest) = Vector2 lon lat"
| "project [lon] = Vector2 lon JUndefined"
| "project [] = Vector2 JUndefined JUndefined"

datatype material = landMat | shadowMat | coastMat

text \<open>A \<open>THREE.Shape\<close> is the sequence of path commands issued on it.\<close>

datatype pathcmd = moveTo jsval jsval | lineTo jsval jsval

type_synonym shape = "pathcmd list"

text \<open>
  The objects added to the map group: a mesh over a shape geometry, with its material,
  position and scale, or a line through a list of points.
\<close>

datatype object3d =
    Mesh shape material "real \<times> real \<times> real" "real \<times> real \<times> real"
  | Line "jsval vector3 list" material

type_synonym group = "object3d list"

text \<open>
  Lines 70-75: \<open>ring.forEach((p, i) => ...)\<close>, with the index \<open>i\<close> of the element and
  the shape built so far. An element that is not an array of at least two components
  returns from the callback; the index still advances.
\<close>

fun ringShape :: "nat \<Rightarrow> jsval list \<Rightarrow> shape \<Rightarrow> shape" where
  "ringShape i [] shape = shape"
| "ringShape i (p # ps) shape =
     (if \<not> isArray p \<or> length (elems p) < 2 then ringShape (Suc i) ps shape
      else let v = project (elems p)
           in ringShape (Suc i) ps
                (shape @ [if i = 0 then moveTo (v2x v) (v2y v) else lineTo (v2x v) (v2y v)]))"

text \<open>Line 89: the filter predicate \<open>p => Array.isArray(p) && p.length >= 2\<close>.\<close>

definition validPoint :: "jsval \<Rightarrow> bool" where
  "validPoint p = (isArray p \<and> 2 \<le> length (elems p))"

text \<open>Lines 90-93: the map callback of the outline's points.\<close>

definition outlinePoint :: "jsval \<Rightarrow> jsval vector3" where
  "outlinePoint p = (let v = project (elems p) in Vector3 (v2x v) (v2y v) (JNum 2))"

text \<open>
  Lines 65-100: \<open>drawPolygon\<close>. The map group is the list of its children in the order
  they were added; the function returns the group after its \<open>add\<close> calls.
\<close>

definition drawPolygon :: "jsval \<Rightarrow> group \<Rightarrow> group" where
  "drawPolygon ring mapGroup =
     (if \<not> isArray ring \<or> length (elems ring) < 3 then mapGroup
      else
        let shape = ringShape 0 (elems ring) [];
            shadow = Mesh shape shadowMat (0, 0 - 4, 0 - 2) (1.03, 1.03, 1);
            mapGroup1 = mapGroup @ [shadow];
            landMesh = Mesh shape landMat (0, 0, 0) (1, 1, 1);
            mapGroup2 = mapGroup1 @ [landMesh];
            pts = map outlinePoint (filter validPoint (elems ring))
        in if 1 < length pts then mapGroup2 @ [Line pts coastMat] else mapGroup2)"

text \<open>Lines 113-117: the \<open>forEach\<close> over the polygons of a MultiPolygon.\<close>

fun drawPolys :: "jsval list \<Rightarrow> group \<Rightarrow> group" where
  "drawPolys [] mapGroup = mapGroup"
| "drawPolys (poly # polys) mapGroup =
     (if isArray poly \<and> truthy (index0 poly)
      then drawPolys polys (drawPolygon (index0 poly) mapGroup)
      else drawPolys polys mapGroup)"

text \<open>
  Lines 104-119: the callback run on one feature. Reading \<open>f.geometry\<close> throws when the
  feature is \<open>null\<close>; \<open>g.coordinates.forEach\<close> throws when the coordinates of a
  MultiPolygon are not an array.
\<close>

definition loadFeature :: "jsval \<Rightarrow> group \<Rightarrow> error + group" where
  "loadFeature f mapGroup =
     (case getProp f ''geometry'' of
        Inl e \<Rightarrow> Inl e
      | Inr g \<Rightarrow>
          if \<not> truthy g then Inr mapGroup
          else (case getProp g ''coordinates'' of
                  Inl e \<Rightarrow> Inl e
                | Inr coordinates \<Rightarrow>
                    if \<not> truthy coordinates then Inr mapGroup
                    else (case getProp g ''type'' of
                            Inl e \<Rightarrow> Inl e
                          | Inr ty \<Rightarrow>
                              let mapGroup1 =
                                    (if ty = JStr ''Polygon''
                                     then drawPolygon (index0 coordinates) mapGroup
                                     else mapGroup)
                              in if ty = JStr ''MultiPolygon''
                                 then (if isArray coordinates
                                       then Inr (drawPolys (elems coordinates) mapGroup1)
                                       else Inl TypeError)
                                 else Inr mapGroup1)))"

fun loadFeatures :: "jsval list \<Rightarrow> group \<Rightarrow> error + group" where
  "loadFeatures [] mapGroup = Inr mapGroup"
| "loadFeatures (f # fs) mapGroup =
     (case loadFeature f mapGroup of
        Inl e \<Rightarrow> Inl e
      | Inr mapGroup1 \<Rightarrow> loadFeatures fs mapGroup1)"

text \<open>The \<open>.length\<close> of a value that is neither \<open>null\<close> nor \<open>undefined\<close>.\<close>

fun jsLength :: "jsval \<Rightarrow> jsval" where
  "jsLength (JArr es) = JNum (real (length es))"
| "jsLength (JStr s) = JNum (real (length s))"
| "jsLength (JObj kvs) = (case map_of kvs ''length'' of None \<Rightarrow> JUndefined | Some v \<Rightarrow> v)"
| "jsLength v = JUndefined"

fun nullish :: "jsval \<Rightarrow> bool" where
  "nullish JUndefined = True"
| "nullish JNull = True"
| "nullish v = False"

text \<open>
  Lines 103-120: \<open>if (land?.features?.length) land.features.forEach(...)\<close>. The optional
  chain gives \<open>undefined\<close> at the first \<open>null\<close> or \<open>undefined\<close> link; \<open>forEach\<close> exists on
  arrays only.
\<close>

definition loadGeoJSON :: "jsval \<Rightarrow> group \<Rightarrow> error + group" where
  "loadGeoJSON land mapGroup =
     (if nullish land then Inr mapGroup
      else case getProp land ''features'' of
             Inl e \<Rightarrow> Inl e
           | Inr features \<Rightarrow>
               if nullish features then Inr mapGroup
               else if \<not> truthy (jsLength features) then Inr mapGroup
               else if isArray features then loadFeatures (elems features) mapGroup
               else Inl TypeError)"

section \<open>Travel arc\<close>

text \<open>The number held by a numeric value; the arc's endpoints are numeric literals.\<close>

fun numberOf :: "jsval \<Rightarrow> real" where
  "numberOf (JNum r) = r"

text \<open>\<open>THREE.MathUtils.lerp(x, y, t)\<close> of the rendering library: \<open>(1 - t) * x + t * y\<close>.\<close>

definition lerp :: "real \<Rightarrow> real \<Rightarrow> real \<Rightarrow> real" where
  "lerp x y t = (1 - t) * x + t * y"

definition arcSteps :: nat where
  "arcSteps = 160"

definition arcStart :: "jsval vector2" where
  "arcStart = project [JNum 10, JNum 45]"

definition arcEnd :: "jsval vector2" where
  "arcEnd = project [JNum 120, JNum 25]"

text \<open>
  Lines 130-140: the loop \<open>for (let i = 0; i <= arcSteps; i++)\<close>, with the two arrays
  it pushes to. \<open>Math.sin\<close> and \<open>Math.PI\<close> are the real sine and \<open>\<pi>\<close> here.
\<close>

function arcLoop :: "nat \<Rightarrow> real vector3 list \<times> real list \<Rightarrow> real vector3 list \<times> real list" where
  "arcLoop i (arcPts, arcProg) =
     (if i \<le> arcSteps
      then let t = real i / real arcSteps
           in arcLoop (i + 1)
                (arcPts @ [Vector3 (lerp (numberOf (v2x arcStart)) (numberOf (v2x arcEnd)) t)
                                   (lerp (numberOf (v2y arcStart)) (numberOf (v2y arcEnd)) t
                                      + sin (t * pi) * 18)
                                   6],
                 arcProg @ [t])
      else (arcPts, arcProg))"
  by pat_completeness auto
termination
  by (relation "measure (\<lambda>(i, acc). Suc arcSteps - i)") auto

declare arcLoop.simps [simp del]

definition arcPts :: "real vector3 list" where
  "arcPts = fst (arcLoop 0 ([], []))"

definition arcProg :: "real list" where
  "arcProg = snd (arcLoop 0 ([], []))"

section \<open>Arc shader\<close>

text \<open>
  The shading language's built-ins: \<open>clamp(x, lo, hi) = min(max(x, lo), hi)\<close> and
  \<open>smoothstep(e0, e1, x)\<close>, the Hermite interpolation of the clamped ratio.
\<close>

definition clamp :: "real \<Rightarrow> real \<Rightarrow> real \<Rightarrow> real" where
  "clamp x lo hi = min (max x lo) hi"

definition smoothstep :: "real \<Rightarrow> real \<Rightarrow> real \<Rightarrow> real" where
  "smoothstep edge0 edge1 x =
     (let t = clamp ((x - edge0) / (edge1 - edge0)) 0 1 in t * t * (3 - 2 * t))"

text \<open>
  Lines 156-165: the fragment shader, as a function of the \<open>time\<close> uniform and the
  interpolated progress \<open>vP\<close>; the result is \<open>gl_FragColor\<close> (red, green, blue, alpha).
\<close>

definition glow :: "real \<Rightarrow> real \<Rightarrow> real" where
  "glow tm vP =
     (let h = smoothstep (tm - 0.05) tm vP;
          t = smoothstep tm (tm + 0.2) vP
      in h * t)"

definition fragmentShader :: "real \<Rightarrow> real \<Rightarrow> real \<times> real \<times> real \<times> real" where
  "fragmentShader tm vP =
     (let g = glow tm vP in (1.0 * g, 0.55 * g, 0.15 * g, g))"

section \<open>The arc's lift in binary64\<close>

text \<open>
  The sections above compute with real numbers. Whether the lift
  \<open>Math.sin(t * Math.PI) * 18\<close> of line 135 is \<^emph>\<open>exactly\<close> 0 or 18 depends on the rounding
  of the host language's numbers, so the expression is modelled here a second time, in
  binary64 arithmetic: every operation returns the real result rounded to the nearest
  number with a 53-bit significand, ties to the even significand. The exponent is left
  unbounded (no overflow, no subnormal numbers): the values below lie between
  \<open>10\<^sup>-\<^sup>1\<^sup>6\<close> and 45.
\<close>

definition roundHalfEven :: "real \<Rightarrow> int" where
  "roundHalfEven y =
     (let f = \<lfloor>y\<rfloor>; r = y - of_int f
      in if r < 1 / 2 then f else if 1 / 2 < r then f + 1 else if even f then f else f + 1)"

text \<open>The unit in the last place of the binade of \<open>x\<close>: \<open>2\<^sup>e\<^sup>-\<^sup>5\<^sup>2\<close> for \<open>2\<^sup>e \<le> |x| < 2\<^sup>e\<^sup>+\<^sup>1\<close>.\<close>

definition ulp :: "real \<Rightarrow> real" where
  "ulp x = 2 powr (of_int \<lfloor>log 2 \<bar>x\<bar>\<rfloor> - 52)"

definition round64 :: "real \<Rightarrow> real" where
  "round64 x = (if x = 0 then 0 else ulp x * of_int (roundHalfEven (x / ulp x)))"

definition add64 :: "real \<Rightarrow> real \<Rightarrow> real" where
  "add64 a b = round64 (a + b)"

definition sub64 :: "real \<Rightarrow> real \<Rightarrow> real" where
  "sub64 a b = round64 (a - b)"

definition mul64 :: "real \<Rightarrow> real \<Rightarrow> real" where
  "mul64 a b = round64 (a * b)"

definition div64 :: "real \<Rightarrow> real \<Rightarrow> real" where
  "div64 a b = round64 (a / b)"

text \<open>
  \<open>Math.PI\<close> is the binary64 number nearest to \<open>\<pi>\<close>, \<open>884279719003555 / 2\<^sup>4\<^sup>8\<close>
  (3.141592653589793115997963...), which is smaller than \<open>\<pi>\<close>.
\<close>

definition Math_PI :: real where
  "Math_PI = 884279719003555 / 281474976710656"

text \<open>
  \<open>Math.sin\<close>: the language standard leaves its accuracy to the implementation; the model
  takes the correctly rounded sine.
\<close>

definition Math_sin :: "real \<Rightarrow> real" where
  "Math_sin x = round64 (sin x)"

text \<open>Line 131: \<open>t = i / arcSteps\<close>.\<close>

definition arcT :: "nat \<Rightarrow> real" where
  "arcT i = div64 (real i) (real arcSteps)"

text \<open>Line 135: the lift \<open>Math.sin(t * Math.PI) * 18\<close>.\<close>

definition arcLift :: "real \<Rightarrow> real" where
  "arcLift t = mul64 (Math_sin (mul64 t Math_PI)) 18"

text \<open>\<open>THREE.MathUtils.lerp\<close> in binary64: \<open>(1 - t) * x + t * y\<close>, each operation rounded.\<close>

definition lerp64 :: "real \<Rightarrow> real \<Rightarrow> real \<Rightarrow> real" where
  "lerp64 x y t = add64 (mul64 (sub64 1 t) x) (mul64 t y)"

text \<open>Line 135: the sample's \<open>y\<close>, \<open>lerp(start.y, end.y, t) + Math.sin(t * Math.PI) * 18\<close>.\<close>

definition arcY :: "real \<Rightarrow> real" where
  "arcY t = add64 (lerp64 (numberOf (v2y arcStart)) (numberOf (v2y arcEnd)) t) (arcLift t)"

section \<open>Vocabulary of the properties\<close>

text \<open>The point a path command draws to.\<close>

fun cmdTarget :: "pathcmd \<Rightarrow> jsval vector2" where
  "cmdTarget (moveTo x y) = Vector2 x y"
| "cmdTarget (lineTo x y) = Vector2 x y"

text \<open>
  The number of numeric components of a ring element (\<open>typeof c === "number"\<close>). The
  source never computes it: its tests look at \<open>p.length\<close> only. It is the quantity the
  specification's sentence on coordinate pairs speaks of.
\<close>

fun isNumber :: "jsval \<Rightarrow> bool" where
  "isNumber (JNum r) = True"
| "isNumber v = False"

definition numericComponents :: "jsval \<Rightarrow> nat" where
  "numericComponents p = length (filter isNumber (elems p))"

text \<open>The point pushed by iteration \<open>i\<close> of the arc loop (lines 131-138).\<close>

definition arcSample :: "nat \<Rightarrow> real vector3" where
  "arcSample i =
     Vector3 (lerp (numberOf (v2x arcStart)) (numberOf (v2x arcEnd)) (real i / real arcSteps))
             (lerp (numberOf (v2y arcStart)) (numberOf (v2y arcEnd)) (real i / real arcSteps)
                + sin (real i / real arcSteps * pi) * 18)
             6"

text \<open>The \<open>i\<close>-th term of the power series of the inverse tangent, used to bound \<open>\<pi>\<close>.\<close>

definition atanTerm :: "real \<Rightarrow> nat \<Rightarrow> real" where
  "atanTerm x i = (- 1) ^ i * (1 / real (i * 2 + 1) * x ^ (i * 2 + 1))"

section \<open>Properties\<close>

lemma js_rem_one_nonneg: "0 \<le> x \<Longrightarrow> js_rem x 1 = frac x"
  by (simp add: js_rem_def js_trunc_def frac_def)

text \<open>
  C4. For every non-negative elapsed time, the time uniform written by an animation
  tick, \<open>(e * 0.25) % 1\<close>, lies in the half-open interval from 0 (included) to 1
  (excluded).
\<close>

theorem animate_time_in_unit_interval:
  assumes "0 \<le> e"
  shows "0 \<le> time (animate e u) \<and> time (animate e u) < 1"
proof -
  from assms have "0 \<le> e * 0.25" by simp
  then have "js_rem (e * 0.25) 1 = frac (e * 0.25)" by (rule js_rem_one_nonneg)
  then show ?thesis by (simp add: animate_def frac_lt_1)
qed

theorem animate_time_in_unit_interval_witness:
  "(0::real) \<le> 11 / 2 \<and> 0 \<le> time (animate (11 / 2) \<lparr>time = 0\<rparr>)
     \<and> time (animate (11 / 2) \<lparr>time = 0\<rparr>) < 1
     \<and> time (animate (11 / 2) \<lparr>time = 0\<rparr>) = 3 / 8"
proof -
  have h: "(0::real) \<le> 11 / 2" by simp
  have v: "time (animate (11 / 2) \<lparr>time = 0\<rparr>) = 3 / 8"
    by (simp add: animate_def js_rem_def js_trunc_def)
  show ?thesis
    using h v animate_time_in_unit_interval [OF h, of "\<lparr>time = 0\<rparr>"] by simp
qed

text \<open>
  C10. The renderer's pixel ratio is the smaller of the device pixel density and 2: for
  every density \<open>d \<ge> 0\<close> it never exceeds 2, and it equals \<open>d\<close> whenever \<open>d \<le> 2\<close>.
\<close>

theorem pixelRatio_capped:
  assumes "0 \<le> d"
  shows "pixelRatio (newRenderer d w h) = min d 2
       \<and> pixelRatio (newRenderer d w h) \<le> 2
       \<and> (d \<le> 2 \<longrightarrow> pixelRatio (newRenderer d w h) = d)"
  by (simp add: newRenderer_def)

theorem pixelRatio_capped_witness:
  "pixelRatio (newRenderer (3 / 2) 800 600) = 3 / 2
   \<and> pixelRatio (newRenderer 3 800 600) = 2"
  using pixelRatio_capped [of "3 / 2" 800 600] pixelRatio_capped [of 3 800 600]
  by simp

lemma resizes_vertical:
  "top' (fst (resizes evs st)) = top' (fst st) \<and> bottom (fst (resizes evs st)) = bottom (fst st)
   \<and> near (fst (resizes evs st)) = near (fst st) \<and> far (fst (resizes evs st)) = far (fst st)
   \<and> position_z (fst (resizes evs st)) = position_z (fst st)"
proof (induction evs arbitrary: st)
  case Nil
  show ?case by simp
next
  case (Cons ev evs)
  obtain w h where ev: "ev = (w, h)" by (cases ev)
  have step: "top' (fst (resize w h st)) = top' (fst st) \<and> bottom (fst (resize w h st)) = bottom (fst st)
     \<and> near (fst (resize w h st)) = near (fst st) \<and> far (fst (resize w h st)) = far (fst st)
     \<and> position_z (fst (resize w h st)) = position_z (fst st)"
    by (simp add: resize_def Let_def)
  show ?case
    using Cons.IH [of "resize w h st"] step by (simp add: ev)
qed

text \<open>
  C5. For every resize event with new window width \<open>w\<close> and height \<open>h > 0\<close>, the handler
  leaves the camera's top, bottom, near and far bounds as they were and sets the
  horizontal bounds to \<open>-180 * (w / h)\<close> and \<open>180 * (w / h)\<close>; on the camera of the mounted
  component, after any earlier resize events, the vertical bounds are therefore still
  exactly 90 and -90.
\<close>

theorem resize_keeps_vertical_bounds:
  assumes "0 < h"
  shows "top' (fst (resize w h (cam, rend))) = top' cam
       \<and> bottom (fst (resize w h (cam, rend))) = bottom cam
       \<and> near (fst (resize w h (cam, rend))) = near cam
       \<and> far (fst (resize w h (cam, rend))) = far cam
       \<and> left (fst (resize w h (cam, rend))) = - 180 * (w / h)
       \<and> right (fst (resize w h (cam, rend))) = 180 * (w / h)
       \<and> top' (fst (resize w h (resizes evs (mounted d w0 h0)))) = 90
       \<and> bottom (fst (resize w h (resizes evs (mounted d w0 h0)))) = - 90"
proof -
  have v: "top' (fst (resizes evs (mounted d w0 h0))) = 90
         \<and> bottom (fst (resizes evs (mounted d w0 h0))) = - 90"
    using resizes_vertical [of evs "mounted d w0 h0"]
    by (simp add: mounted_def newCamera_def WORLD_HEIGHT_def Let_def)
  have s: "top' (fst (resize w h st)) = top' (fst st) \<and> bottom (fst (resize w h st)) = bottom (fst st)" for st
    by (simp add: resize_def Let_def)
  show ?thesis
    using v s [of "resizes evs (mounted d w0 h0)"]
    by (simp add: resize_def Let_def WORLD_WIDTH_def)
qed

theorem resize_keeps_vertical_bounds_witness:
  "(0::real) < 600
   \<and> left (fst (resize 1200 600 (resizes [(1024, 768)] (mounted 1 800 600)))) = - 360
   \<and> right (fst (resize 1200 600 (resizes [(1024, 768)] (mounted 1 800 600)))) = 360
   \<and> top' (fst (resize 1200 600 (resizes [(1024, 768)] (mounted 1 800 600)))) = 90
   \<and> bottom (fst (resize 1200 600 (resizes [(1024, 768)] (mounted 1 800 600)))) = - 90"
proof -
  have h: "(0::real) < 600" by simp
  show ?thesis
    using resize_keeps_vertical_bounds [OF h, of 1200 "fst (resizes [(1024, 768)] (mounted 1 800 600))"
        "snd (resizes [(1024, 768)] (mounted 1 800 600))" "[(1024, 768)]" 1 800 600]
    by simp
qed

lemma ringShape_acc: "ringShape i ps acc = acc @ ringShape i ps []"
proof (induction ps arbitrary: i acc)
  case Nil
  show ?case by simp
next
  case (Cons p ps)
  show ?case
    using Cons.IH [of "Suc i" acc]
      Cons.IH [of "Suc i" "acc @ [if i = 0 then moveTo (v2x (project (elems p))) (v2y (project (elems p)))
                                   else lineTo (v2x (project (elems p))) (v2y (project (elems p)))]"]
      Cons.IH [of "Suc i" "[if i = 0 then moveTo (v2x (project (elems p))) (v2y (project (elems p)))
                                   else lineTo (v2x (project (elems p))) (v2y (project (elems p)))]"]
    by (simp add: Let_def)
qed

lemma ringShape_append:
  "ringShape i (xs @ ys) acc = ringShape (i + length xs) ys (ringShape i xs acc)"
  by (induction xs arbitrary: i acc) (simp_all add: Let_def)

lemma ringShape_skip:
  "\<not> validPoint p \<Longrightarrow> ringShape i (p # ps) acc = ringShape (Suc i) ps acc"
  by (auto simp: validPoint_def)

lemma ringShape_targets:
  "map cmdTarget (ringShape i ps acc)
     = map cmdTarget acc @ map (\<lambda>p. project (elems p)) (filter validPoint ps)"
  by (induction ps arbitrary: i acc) (auto simp: validPoint_def Let_def)

lemma drawPolygon_array:
  assumes "3 \<le> length ps"
  shows "drawPolygon (JArr ps) mapGroup =
           mapGroup @ [Mesh (ringShape 0 ps []) shadowMat (0, - 4, - 2) (1.03, 1.03, 1),
                       Mesh (ringShape 0 ps []) landMat (0, 0, 0) (1, 1, 1)]
             @ (if 2 \<le> length (filter validPoint ps)
                then [Line (map outlinePoint (filter validPoint ps)) coastMat] else [])"
  using assms by (simp add: drawPolygon_def Let_def)

text \<open>
  C1, as the code has it. For every ring that is not an array or has fewer than 3
  elements (every element counts, valid coordinate pair or not), \<open>drawPolygon\<close> adds
  nothing to the map group: no shadow mesh, no fill mesh, no outline.
\<close>

theorem drawPolygon_skips_short_ring:
  assumes "\<not> isArray ring \<or> length (elems ring) < 3"
  shows "drawPolygon ring mapGroup = mapGroup"
  using assms by (simp add: drawPolygon_def)

theorem drawPolygon_skips_short_ring_witness:
  "drawPolygon (JArr [JArr [JNum 0, JNum 0], JArr [JNum 1, JNum 1]]) [] = []
   \<and> drawPolygon (JStr ''abc'') [] = []"
  using drawPolygon_skips_short_ring [of "JArr [JArr [JNum 0, JNum 0], JArr [JNum 1, JNum 1]]" "[]"]
    drawPolygon_skips_short_ring [of "JStr ''abc''" "[]"]
  by simp

text \<open>
  C1 as stated fails: the guard counts the ring's elements, not its valid coordinate
  pairs. A ring of three elements with only two valid pairs gets a shadow mesh, a fill
  mesh and an outline.
\<close>

theorem drawPolygon_two_valid_points_drawn:
  "length (filter validPoint [JArr [JNum 0, JNum 0], JArr [JNum 1, JNum 1], JNull]) < 3
   \<and> drawPolygon (JArr [JArr [JNum 0, JNum 0], JArr [JNum 1, JNum 1], JNull]) []
       = [Mesh [moveTo (JNum 0) (JNum 0), lineTo (JNum 1) (JNum 1)] shadowMat (0, - 4, - 2) (1.03, 1.03, 1),
          Mesh [moveTo (JNum 0) (JNum 0), lineTo (JNum 1) (JNum 1)] landMat (0, 0, 0) (1, 1, 1),
          Line [Vector3 (JNum 0) (JNum 0) (JNum 2), Vector3 (JNum 1) (JNum 1) (JNum 2)] coastMat]"
  by (simp add: drawPolygon_def validPoint_def outlinePoint_def Let_def)

text \<open>
  C9. For every array ring of length at least 3, \<open>drawPolygon\<close> adds a shadow mesh and a
  fill mesh to the map group whatever the ring holds (also with no valid coordinate
  pair at all), and adds the outline after them exactly when at least 2 elements of
  the ring are valid coordinate pairs.
\<close>

theorem drawPolygon_long_ring:
  assumes "isArray ring" and "3 \<le> length (elems ring)"
  shows "drawPolygon ring mapGroup =
           mapGroup @ [Mesh (ringShape 0 (elems ring) []) shadowMat (0, - 4, - 2) (1.03, 1.03, 1),
                       Mesh (ringShape 0 (elems ring) []) landMat (0, 0, 0) (1, 1, 1)]
             @ (if 2 \<le> length (filter validPoint (elems ring))
                then [Line (map outlinePoint (filter validPoint (elems ring))) coastMat] else [])"
proof -
  from assms(1) obtain ps where r: "ring = JArr ps" by (cases ring) simp_all
  with assms(2) have "3 \<le> length ps" by simp
  then show ?thesis unfolding r elems.simps by (rule drawPolygon_array)
qed

theorem drawPolygon_long_ring_witness:
  "drawPolygon (JArr [JNull, JNull, JNull]) []
     = [Mesh [] shadowMat (0, - 4, - 2) (1.03, 1.03, 1), Mesh [] landMat (0, 0, 0) (1, 1, 1)]
   \<and> drawPolygon (JArr [JNull, JArr [JNum 5, JNum 6], JNum 7]) []
     = [Mesh [lineTo (JNum 5) (JNum 6)] shadowMat (0, - 4, - 2) (1.03, 1.03, 1),
        Mesh [lineTo (JNum 5) (JNum 6)] landMat (0, 0, 0) (1, 1, 1)]"
  using drawPolygon_long_ring [of "JArr [JNull, JNull, JNull]" "[]"]
    drawPolygon_long_ring [of "JArr [JNull, JArr [JNum 5, JNum 6], JNum 7]" "[]"]
  by (simp add: validPoint_def)

text \<open>
  C6 as stated fails: the code tests the number of components, not their kind. The pair
  \<open>[1, "x"]\<close> has one numeric component and is a vertex of the outline all the same.
\<close>

theorem non_numeric_pair_in_outline:
  "numericComponents (JArr [JNum 1, JStr ''x'']) < 2
   \<and> drawPolygon (JArr [JArr [JNum 0, JNum 0], JArr [JNum 1, JStr ''x''], JArr [JNum 2, JNum 2]]) []
       = [Mesh [moveTo (JNum 0) (JNum 0), lineTo (JNum 1) (JStr ''x''), lineTo (JNum 2) (JNum 2)]
            shadowMat (0, - 4, - 2) (1.03, 1.03, 1),
          Mesh [moveTo (JNum 0) (JNum 0), lineTo (JNum 1) (JStr ''x''), lineTo (JNum 2) (JNum 2)]
            landMat (0, 0, 0) (1, 1, 1),
          Line [Vector3 (JNum 0) (JNum 0) (JNum 2), Vector3 (JNum 1) (JStr ''x'') (JNum 2),
                Vector3 (JNum 2) (JNum 2) (JNum 2)] coastMat]"
  by (simp add: drawPolygon_def validPoint_def outlinePoint_def numericComponents_def Let_def)

text \<open>
  C6, as the code has it. In every ring processed by \<open>drawPolygon\<close> (an array of at least
  3 elements), an element \<open>p\<close> that is not an array of at least 2 components (of any
  kind) contributes no vertex to the outline and no command to the path of the fill
  and shadow meshes, and does not stop the loop: the elements before it (\<open>xs\<close>) and after
  it (\<open>ys\<close>) are processed, each array of at least 2 components among them giving one
  path command and one outline vertex, in ring order. The outline itself is added when
  at least 2 such elements remain.
\<close>

theorem invalid_point_skipped:
  assumes "\<not> validPoint p" and "3 \<le> length (xs @ p # ys)"
  shows "drawPolygon (JArr (xs @ p # ys)) mapGroup =
           mapGroup
             @ [Mesh (ringShape 0 xs [] @ ringShape (Suc (length xs)) ys [])
                  shadowMat (0, - 4, - 2) (1.03, 1.03, 1),
                Mesh (ringShape 0 xs [] @ ringShape (Suc (length xs)) ys [])
                  landMat (0, 0, 0) (1, 1, 1)]
             @ (if 2 \<le> length (filter validPoint xs) + length (filter validPoint ys)
                then [Line (map outlinePoint (filter validPoint xs)
                              @ map outlinePoint (filter validPoint ys)) coastMat]
                else [])
       \<and> map cmdTarget (ringShape 0 xs [] @ ringShape (Suc (length xs)) ys [])
           = map (\<lambda>q. project (elems q)) (filter validPoint xs)
               @ map (\<lambda>q. project (elems q)) (filter validPoint ys)"
proof -
  have sh: "ringShape 0 (xs @ p # ys) [] = ringShape 0 xs [] @ ringShape (Suc (length xs)) ys []"
  proof -
    have "ringShape 0 (xs @ p # ys) [] = ringShape (0 + length xs) (p # ys) (ringShape 0 xs [])"
      by (rule ringShape_append)
    also have "\<dots> = ringShape (Suc (length xs)) ys (ringShape 0 xs [])"
      using assms(1) by (auto simp: validPoint_def)
    also have "\<dots> = ringShape 0 xs [] @ ringShape (Suc (length xs)) ys []"
      by (rule ringShape_acc)
    finally show ?thesis .
  qed
  have fl: "filter validPoint (xs @ p # ys) = filter validPoint xs @ filter validPoint ys"
    using assms(1) by simp
  have d: "drawPolygon (JArr (xs @ p # ys)) mapGroup =
           mapGroup
             @ [Mesh (ringShape 0 xs [] @ ringShape (Suc (length xs)) ys [])
                  shadowMat (0, - 4, - 2) (1.03, 1.03, 1),
                Mesh (ringShape 0 xs [] @ ringShape (Suc (length xs)) ys [])
                  landMat (0, 0, 0) (1, 1, 1)]
             @ (if 2 \<le> length (filter validPoint xs) + length (filter validPoint ys)
                then [Line (map outlinePoint (filter validPoint xs)
                              @ map outlinePoint (filter validPoint ys)) coastMat]
                else [])"
    unfolding drawPolygon_array [OF assms(2)] sh fl by simp
  have t: "map cmdTarget (ringShape 0 xs [] @ ringShape (Suc (length xs)) ys [])
           = map (\<lambda>q. project (elems q)) (filter validPoint xs)
               @ map (\<lambda>q. project (elems q)) (filter validPoint ys)"
    by (simp add: ringShape_targets)
  from d t show ?thesis by (rule conjI)
qed

theorem invalid_point_skipped_witness:
  "drawPolygon (JArr ([JArr [JNum 0, JNum 0]] @ JArr [JNum 9] # [JArr [JNum 1, JNum 1], JArr [JNum 2, JNum 2]])) []
     = [Mesh [moveTo (JNum 0) (JNum 0), lineTo (JNum 1) (JNum 1), lineTo (JNum 2) (JNum 2)]
          shadowMat (0, - 4, - 2) (1.03, 1.03, 1),
        Mesh [moveTo (JNum 0) (JNum 0), lineTo (JNum 1) (JNum 1), lineTo (JNum 2) (JNum 2)]
          landMat (0, 0, 0) (1, 1, 1),
        Line [Vector3 (JNum 0) (JNum 0) (JNum 2), Vector3 (JNum 1) (JNum 1) (JNum 2),
              Vector3 (JNum 2) (JNum 2) (JNum 2)] coastMat]"
proof -
  have a: "\<not> validPoint (JArr [JNum 9])" by (simp add: validPoint_def)
  have b: "3 \<le> length ([JArr [JNum 0, JNum 0]] @ JArr [JNum 9] # [JArr [JNum 1, JNum 1], JArr [JNum 2, JNum 2]])"
    by simp
  show ?thesis
    using invalid_point_skipped [OF a b, of "[]"]
    by (simp add: validPoint_def outlinePoint_def Let_def)
qed

lemma drawPolys_fold:
  "drawPolys polys mapGroup
     = fold drawPolygon (map index0 (filter (\<lambda>poly. isArray poly \<and> truthy (index0 poly)) polys)) mapGroup"
  by (induction polys arbitrary: mapGroup) simp_all

lemma getProp_array_truthy:
  assumes "getProp g k = Inr (JArr rings)"
  shows "truthy g"
  using assms by (cases g) simp_all

text \<open>
  C8. For a feature whose geometry holds an array of coordinates: a Polygon passes only
  \<open>coordinates[0]\<close> to \<open>drawPolygon\<close>, and a MultiPolygon passes only \<open>poly[0]\<close> of each of
  its polygons (those that are arrays with a truthy first entry), in order. The result
  does not depend on any ring at index 1 or above.
\<close>

theorem only_first_rings_drawn:
  assumes geo: "getProp f ''geometry'' = Inr g"
    and co: "getProp g ''coordinates'' = Inr (JArr rings)"
  shows "(getProp g ''type'' = Inr (JStr ''Polygon'') \<and> rings = r # holes
            \<longrightarrow> loadFeature f mapGroup = Inr (drawPolygon r mapGroup))
       \<and> (getProp g ''type'' = Inr (JStr ''MultiPolygon'')
            \<longrightarrow> loadFeature f mapGroup
                  = Inr (fold drawPolygon
                           (map index0 (filter (\<lambda>poly. isArray poly \<and> truthy (index0 poly)) rings))
                           mapGroup))"
proof -
  have tg: "truthy g" using co by (rule getProp_array_truthy)
  show ?thesis
    using tg by (simp add: loadFeature_def geo co Let_def drawPolys_fold)
qed

theorem only_first_rings_drawn_witness:
  "loadFeature
     (JObj [(''type'', JStr ''Feature''),
            (''geometry'', JObj [(''type'', JStr ''Polygon''),
                                 (''coordinates'',
                                    JArr [JArr [JArr [JNum 0, JNum 0], JArr [JNum 4, JNum 0], JArr [JNum 0, JNum 4]],
                                          JArr [JArr [JNum 1, JNum 1], JArr [JNum 2, JNum 1], JArr [JNum 1, JNum 2]]])])])
     []
   = Inr (drawPolygon (JArr [JArr [JNum 0, JNum 0], JArr [JNum 4, JNum 0], JArr [JNum 0, JNum 4]]) [])
   \<and> loadFeature
     (JObj [(''geometry'', JObj [(''type'', JStr ''MultiPolygon''),
                                 (''coordinates'',
                                    JArr [JArr [JArr [JArr [JNum 0, JNum 0], JArr [JNum 4, JNum 0], JArr [JNum 0, JNum 4]],
                                                JArr [JArr [JNum 1, JNum 1], JArr [JNum 2, JNum 1], JArr [JNum 1, JNum 2]]],
                                          JArr [],
                                          JArr [JArr [JArr [JNum 7, JNum 7], JArr [JNum 8, JNum 7], JArr [JNum 7, JNum 8]]]])])])
     []
   = Inr (drawPolygon (JArr [JArr [JNum 7, JNum 7], JArr [JNum 8, JNum 7], JArr [JNum 7, JNum 8]])
           (drawPolygon (JArr [JArr [JNum 0, JNum 0], JArr [JNum 4, JNum 0], JArr [JNum 0, JNum 4]]) []))"
proof -
  let ?outer = "JArr [JArr [JNum 0, JNum 0], JArr [JNum 4, JNum 0], JArr [JNum 0, JNum 4]]"
  let ?hole = "JArr [JArr [JNum 1, JNum 1], JArr [JNum 2, JNum 1], JArr [JNum 1, JNum 2]]"
  let ?other = "JArr [JArr [JNum 7, JNum 7], JArr [JNum 8, JNum 7], JArr [JNum 7, JNum 8]]"
  let ?g1 = "JObj [(''type'', JStr ''Polygon''), (''coordinates'', JArr [?outer, ?hole])]"
  let ?g2 = "JObj [(''type'', JStr ''MultiPolygon''),
                   (''coordinates'', JArr [JArr [?outer, ?hole], JArr [], JArr [?other]])]"
  have a1: "getProp (JObj [(''type'', JStr ''Feature''), (''geometry'', ?g1)]) ''geometry'' = Inr ?g1"
    by simp
  have b1: "getProp ?g1 ''coordinates'' = Inr (JArr [?outer, ?hole])" by simp
  have a2: "getProp (JObj [(''geometry'', ?g2)]) ''geometry'' = Inr ?g2" by simp
  have b2: "getProp ?g2 ''coordinates'' = Inr (JArr [JArr [?outer, ?hole], JArr [], JArr [?other]])"
    by simp
  show ?thesis
    using only_first_rings_drawn [OF a1 b1, of ?outer "[?hole]" "[]"]
      only_first_rings_drawn [OF a2 b2, of "JArr [?outer, ?hole]" "[JArr [], JArr [?other]]" "[]"]
    by simp
qed

lemma arcLoop_unfold:
  "arcLoop i (ps, qs)
     = (ps @ map arcSample [i..<Suc arcSteps],
        qs @ map (\<lambda>k. real k / real arcSteps) [i..<Suc arcSteps])"
proof (induction i "(ps, qs)" arbitrary: ps qs rule: arcLoop.induct)
  case (1 i ps qs)
  show ?case
  proof (cases "i \<le> arcSteps")
    case True
    then have u: "[i..<Suc arcSteps] = i # [Suc i..<Suc arcSteps]"
      by (simp add: upt_conv_Cons)
    show ?thesis
      using True "1" [OF True refl]
      by (subst arcLoop.simps) (simp add: u Let_def arcSample_def del: upt_Suc)
  next
    case False
    then show ?thesis by (subst arcLoop.simps) simp
  qed
qed

lemma arcPts_map: "arcPts = map arcSample [0..<Suc arcSteps]"
  by (simp add: arcPts_def arcLoop_unfold)

lemma arcProg_map: "arcProg = map (\<lambda>k. real k / real arcSteps) [0..<Suc arcSteps]"
  by (simp add: arcProg_def arcLoop_unfold)

lemma arcSample_eq:
  "arcSample i = Vector3 ((1 - real i / 160) * 10 + real i / 160 * 120)
                         ((1 - real i / 160) * 45 + real i / 160 * 25 + 18 * sin (real i / 160 * pi))
                         6"
  by (simp add: arcSample_def arcStart_def arcEnd_def arcSteps_def lerp_def)

lemma arcProg_increasing: "sorted_wrt (<) arcProg"
proof -
  have "0 < real arcSteps" by (simp add: arcSteps_def)
  then have "\<And>a b. a < b \<Longrightarrow> real a / real arcSteps < real b / real arcSteps"
    by (simp add: divide_strict_right_mono)
  then have "sorted_wrt (\<lambda>a b. real a / real arcSteps < real b / real arcSteps) [0..<Suc arcSteps]"
    by (rule sorted_wrt_mono_rel [OF _ sorted_wrt_upt])
  then show ?thesis by (simp only: arcProg_map sorted_wrt_map)
qed

lemma arcProg_nth: "i \<le> arcSteps \<Longrightarrow> arcProg ! i = real i / real arcSteps"
  unfolding arcProg_map by (subst nth_map_upt) simp_all

lemma arcPts_nth: "i \<le> arcSteps \<Longrightarrow> arcPts ! i = arcSample i"
  unfolding arcPts_map by (subst nth_map_upt) simp_all

lemma arc_lengths: "length arcPts = Suc arcSteps \<and> length arcProg = Suc arcSteps"
  by (simp add: arcPts_map arcProg_map del: upt_Suc)

text \<open>
  C3. With 160 steps the arc loop produces exactly 161 points and 161 progress values;
  the \<open>i\<close>-th progress value is \<open>i / 160\<close>, the sequence is strictly increasing, starts at
  0 and ends at 1; the \<open>i\<close>-th point's \<open>x\<close> is the linear interpolation of 10 and 120 at
  \<open>t = i / 160\<close>, and its \<open>y\<close> that of 45 and 25 plus the lift \<open>18 * sin (t * \<pi>)\<close>.
\<close>

theorem arc_samples:
  "length arcPts = 161 \<and> length arcProg = 161
   \<and> (\<forall>i\<le>160. arcProg ! i = real i / 160
          \<and> arcPts ! i = Vector3 ((1 - real i / 160) * 10 + real i / 160 * 120)
                                 ((1 - real i / 160) * 45 + real i / 160 * 25
                                    + 18 * sin (real i / 160 * pi))
                                 6)
   \<and> sorted_wrt (<) arcProg \<and> hd arcProg = 0 \<and> last arcProg = 1"
proof -
  have l1: "length arcPts = 161" using arc_lengths by (simp add: arcSteps_def)
  have l2: "length arcProg = 161" using arc_lengths by (simp add: arcSteps_def)
  have n: "\<forall>i\<le>160. arcProg ! i = real i / 160
          \<and> arcPts ! i = Vector3 ((1 - real i / 160) * 10 + real i / 160 * 120)
                                 ((1 - real i / 160) * 45 + real i / 160 * 25
                                    + 18 * sin (real i / 160 * pi))
                                 6"
  proof (intro allI impI)
    fix i :: nat
    assume "i \<le> 160"
    then have le: "i \<le> arcSteps" by (simp add: arcSteps_def)
    have p: "arcProg ! i = real i / 160"
      using arcProg_nth [OF le] by (simp add: arcSteps_def)
    have q: "arcPts ! i = Vector3 ((1 - real i / 160) * 10 + real i / 160 * 120)
                                 ((1 - real i / 160) * 45 + real i / 160 * 25
                                    + 18 * sin (real i / 160 * pi))
                                 6"
      using arcPts_nth [OF le] by (simp only: arcSample_eq)
    from p q show "arcProg ! i = real i / 160
          \<and> arcPts ! i = Vector3 ((1 - real i / 160) * 10 + real i / 160 * 120)
                                 ((1 - real i / 160) * 45 + real i / 160 * 25
                                    + 18 * sin (real i / 160 * pi))
                                 6"
      by (rule conjI)
  qed
  have ne: "arcProg \<noteq> []" using l2 by auto
  have "hd arcProg = arcProg ! 0" using ne by (simp add: hd_conv_nth)
  also have "\<dots> = 0" using arcProg_nth [of 0] by simp
  finally have h: "hd arcProg = 0" .
  have "last arcProg = arcProg ! 160" using ne l2 by (simp add: last_conv_nth)
  also have "\<dots> = 1" using arcProg_nth [of 160] by (simp add: arcSteps_def)
  finally have la: "last arcProg = 1" .
  from l1 l2 n arcProg_increasing h la show ?thesis by blast
qed

theorem arc_samples_witness:
  "arcProg ! 40 = 1 / 4 \<and> v3x (arcPts ! 40) = 75 / 2 \<and> arcProg ! 160 = 1 \<and> v3x (arcPts ! 160) = 120"
proof -
  have a: "(40::nat) \<le> 160" and b: "(160::nat) \<le> 160" by simp_all
  from arc_samples have "\<forall>i\<le>160. arcProg ! i = real i / 160
          \<and> arcPts ! i = Vector3 ((1 - real i / 160) * 10 + real i / 160 * 120)
                                 ((1 - real i / 160) * 45 + real i / 160 * 25
                                    + 18 * sin (real i / 160 * pi))
                                 6"
    by blast
  from this [rule_format, OF a] this [rule_format, OF b] show ?thesis by simp
qed

lemma smoothstep_hi: "e0 < e1 \<Longrightarrow> e1 \<le> x \<Longrightarrow> smoothstep e0 e1 x = 1"
  by (simp add: smoothstep_def clamp_def Let_def divide_simps min_def max_def)

lemma smoothstep_lo: "e0 < e1 \<Longrightarrow> x \<le> e0 \<Longrightarrow> smoothstep e0 e1 x = 0"
  by (simp add: smoothstep_def clamp_def Let_def divide_simps min_def max_def)

lemma glow_is_second_ramp: "glow tm vP = smoothstep tm (tm + 0.2) vP"
proof (cases "tm \<le> vP")
  case True
  then have "smoothstep (tm - 0.05) tm vP = 1" by (intro smoothstep_hi) simp_all
  then show ?thesis by (simp add: glow_def Let_def)
next
  case False
  then have "smoothstep tm (tm + 0.2) vP = 0" by (intro smoothstep_lo) simp_all
  then show ?thesis by (simp add: glow_def Let_def)
qed

lemma glow_ahead_of_window: "tm + 0.2 \<le> vP \<Longrightarrow> glow tm vP = 1"
  unfolding glow_is_second_ramp by (rule smoothstep_hi) simp_all

text \<open>
  C2. The shader multiplies two rising ramps, so the first factor never matters
  (\<open>glow_is_second_ramp\<close>) and every point at least 0.2 ahead of \<open>time\<close> is fully lit
  (\<open>glow_ahead_of_window\<close>): the lit region is not a window that fades out ahead of
  \<open>time\<close>. At \<open>time = 1/4\<close> and progress \<open>9/10\<close> the fragment has full intensity.
\<close>

theorem fragmentShader_lit_beyond_window:
  "fragmentShader (1 / 4) (9 / 10) = (1, 0.55, 0.15, 1)"
  by (simp add: fragmentShader_def glow_def smoothstep_def clamp_def Let_def)

lemma ulp_eq:
  assumes "2 powr of_int k \<le> \<bar>x\<bar>" and "\<bar>x\<bar> < 2 powr (of_int k + 1)"
  shows "ulp x = 2 powr (of_int k - 52)"
proof -
  have "0 < (2::real) powr of_int k" by simp
  with assms(1) have pos: "0 < \<bar>x\<bar>" by linarith
  have "\<lfloor>log 2 \<bar>x\<bar>\<rfloor> = k"
    using assms floor_log_eq_powr_iff [OF pos, of 2 k] by simp
  then show ?thesis by (simp add: ulp_def)
qed

lemma roundHalfEven_near:
  assumes "\<bar>y - of_int n\<bar> < 1 / 2"
  shows "roundHalfEven y = n"
proof (cases "of_int n \<le> y")
  case True
  with assms have "\<lfloor>y\<rfloor> = n" by (intro floor_unique) linarith+
  with True assms show ?thesis by (simp add: roundHalfEven_def Let_def)
next
  case False
  with assms have f: "\<lfloor>y\<rfloor> = n - 1" by (intro floor_unique) (simp, linarith)+
  from False assms have "1 / 2 < y - of_int (n - 1)" by simp
  with f show ?thesis by (simp add: roundHalfEven_def Let_def)
qed

lemma roundHalfEven_err: "\<bar>of_int (roundHalfEven y) - y\<bar> \<le> 1 / 2"
proof -
  have a: "of_int \<lfloor>y\<rfloor> \<le> y" and b: "y < of_int \<lfloor>y\<rfloor> + 1" by linarith+
  show ?thesis
    using a b by (auto simp: roundHalfEven_def Let_def)
qed

lemma scale_abs:
  fixes q :: real
  assumes "0 < q"
  shows "\<bar>q * m - x\<bar> = q * \<bar>m - x / q\<bar>"
proof -
  have "q * m - x = q * (m - x / q)" using assms by (simp add: right_diff_distrib)
  then show ?thesis using assms by (simp add: abs_mult)
qed

lemma round64_near:
  assumes "2 powr of_int k \<le> \<bar>x\<bar>" and "\<bar>x\<bar> < 2 powr (of_int k + 1)"
    and "\<bar>x / 2 powr (of_int k - 52) - of_int n\<bar> < 1 / 2"
  shows "round64 x = 2 powr (of_int k - 52) * of_int n"
proof -
  have "0 < (2::real) powr of_int k" by simp
  with assms(1) have nz: "x \<noteq> 0" by auto
  show ?thesis
    using nz roundHalfEven_near [OF assms(3)]
    by (simp add: round64_def ulp_eq [OF assms(1,2)])
qed

lemma round64_err:
  assumes "2 powr of_int k \<le> \<bar>x\<bar>" and "\<bar>x\<bar> < 2 powr (of_int k + 1)"
  shows "\<bar>round64 x - x\<bar> \<le> 2 powr (of_int k - 53)"
proof -
  let ?q = "(2::real) powr (of_int k - 52)"
  have q: "0 < ?q" by simp
  have "0 < (2::real) powr of_int k" by simp
  with assms(1) have nz: "x \<noteq> 0" by auto
  have r: "round64 x = ?q * of_int (roundHalfEven (x / ?q))"
    using nz by (simp add: round64_def ulp_eq [OF assms])
  have "\<bar>round64 x - x\<bar> = ?q * \<bar>of_int (roundHalfEven (x / ?q)) - x / ?q\<bar>"
    unfolding r using q by (rule scale_abs)
  also have "\<dots> \<le> ?q * (1 / 2)"
    using q roundHalfEven_err [of "x / ?q"] by (intro mult_left_mono) simp_all
  also have "\<dots> = 2 powr (of_int k - 53)"
    by (simp add: powr_diff)
  finally show ?thesis .
qed

lemma arctan_partial_bounds:
  assumes "0 < x" and "x \<le> 1"
  shows "(\<Sum>i<2 * n. atanTerm x i) \<le> arctan x \<and> arctan x \<le> (\<Sum>i<2 * n + 1. atanTerm x i)"
proof -
  have ax: "\<bar>x\<bar> \<le> 1" using assms by simp
  have pos: "0 < 1 / real (0 * 2 + 1) * x ^ (0 * 2 + 1)" using assms by simp
  from summable_Leibniz(2) [OF zeroseq_arctan_series [OF ax] monoseq_arctan_series [OF ax]] pos
  have "\<forall>n. (\<Sum>i. (- 1) ^ i * (1 / real (i * 2 + 1) * x ^ (i * 2 + 1)))
          \<in> {\<Sum>i<2 * n. (- 1) ^ i * (1 / real (i * 2 + 1) * x ^ (i * 2 + 1)) ..
             \<Sum>i<2 * n + 1. (- 1) ^ i * (1 / real (i * 2 + 1) * x ^ (i * 2 + 1))}"
    by blast
  then show ?thesis
    unfolding arctan_series [OF ax] atanTerm_def by simp
qed

lemma s5_12: "(\<Sum>i<12. atanTerm (1 / 5) i) = 157490522761940959144868 / 797842276096343994140625"
  by (simp add: atanTerm_def eval_nat_numeral)

lemma s5_13: "(\<Sum>i<13. atanTerm (1 / 5) i) = 98431576726213099532470361 / 498651422560214996337890625"
  by (simp add: atanTerm_def eval_nat_numeral)

lemma s239_5: "(\<Sum>i<5. atanTerm (1 / 239) i) = 3353445302593898272583 / 801478104348738532136085"
  by (simp add: atanTerm_def eval_nat_numeral)

lemma s239_4: "(\<Sum>i<4. atanTerm (1 / 239) i) = 19569249503065996 / 4677077924340368295"
  by (simp add: atanTerm_def eval_nat_numeral)

lemma pi_machin: "pi = 16 * arctan (1 / 5) - 4 * arctan (1 / 239)"
  using machin by simp

lemma pi_lower: "Math_PI + 1203 / 10 ^ 19 \<le> pi"
proof -
  have a: "(\<Sum>i<12. atanTerm (1 / 5) i) \<le> arctan (1 / 5)"
    using arctan_partial_bounds [of "1 / 5" 6] by simp
  have b: "arctan (1 / 239) \<le> (\<Sum>i<5. atanTerm (1 / 239) i)"
    using arctan_partial_bounds [of "1 / 239" 2] by simp
  have "Math_PI + 1203 / 10 ^ 19
          \<le> 16 * (\<Sum>i<12. atanTerm (1 / 5) i) - 4 * (\<Sum>i<5. atanTerm (1 / 239) i)"
    unfolding s5_12 s239_5 Math_PI_def by simp
  also have "\<dots> \<le> pi" unfolding pi_machin using a b by linarith
  finally show ?thesis .
qed

lemma pi_upper: "pi \<le> Math_PI + 1226 / 10 ^ 19"
proof -
  have a: "arctan (1 / 5) \<le> (\<Sum>i<13. atanTerm (1 / 5) i)"
    using arctan_partial_bounds [of "1 / 5" 6] by simp
  have b: "(\<Sum>i<4. atanTerm (1 / 239) i) \<le> arctan (1 / 239)"
    using arctan_partial_bounds [of "1 / 239" 2] by simp
  have "pi \<le> 16 * (\<Sum>i<13. atanTerm (1 / 5) i) - 4 * (\<Sum>i<4. atanTerm (1 / 239) i)"
    unfolding pi_machin using a b by linarith
  also have "\<dots> \<le> Math_PI + 1226 / 10 ^ 19"
    unfolding s5_13 s239_4 Math_PI_def by simp
  finally show ?thesis .
qed

lemma sin_near_zero:
  fixes d :: real
  assumes "0 \<le> d"
  shows "d - d ^ 3 / 6 \<le> sin d \<and> sin d \<le> d"
proof -
  have "(\<Sum>m<3. sin_coeff m * d ^ m) = d"
    by (simp add: sin_coeff_def eval_nat_numeral)
  with Maclaurin_sin_bound [of d 3] have "\<bar>sin d - d\<bar> \<le> inverse (fact 3) * \<bar>d\<bar> ^ 3"
    by simp
  moreover have "inverse (fact 3) * \<bar>d\<bar> ^ 3 = d ^ 3 / 6"
    using assms by (simp add: eval_nat_numeral)
  ultimately show ?thesis using sin_x_le_x [OF assms] by simp
qed

lemma sin_Math_PI: "1202 / 10 ^ 19 \<le> sin Math_PI \<and> sin Math_PI \<le> 1226 / 10 ^ 19"
proof -
  let ?d = "pi - Math_PI"
  have lo: "1203 / 10 ^ 19 \<le> ?d" using pi_lower by simp
  have hi: "?d \<le> 1226 / 10 ^ 19" using pi_upper by simp
  have d0: "0 \<le> ?d" using lo by simp
  have s: "sin Math_PI = sin ?d" by (simp only: sin_pi_minus)
  have "?d ^ 3 \<le> (1226 / 10 ^ 19) ^ 3" by (rule power_mono [OF hi d0])
  moreover have "(1226 / 10 ^ 19) ^ 3 \<le> (6::real) / 10 ^ 19" by (simp add: power_divide)
  ultimately have "?d ^ 3 \<le> 6 / 10 ^ 19" by (rule order_trans)
  then have "?d ^ 3 / 6 \<le> 1 / 10 ^ 19" by linarith
  with lo sin_near_zero [OF d0] hi show ?thesis unfolding s by simp
qed

lemma cos_near_zero:
  fixes x :: real
  shows "1 - x\<^sup>2 / 2 \<le> cos x"
proof -
  have "\<bar>sin (x / 2)\<bar> \<le> \<bar>x / 2\<bar>" by (rule abs_sin_x_le_abs_x)
  then have "(sin (x / 2))\<^sup>2 \<le> (x / 2)\<^sup>2" by (simp only: abs_le_square_iff)
  moreover have "cos x = 1 - 2 * (sin (x / 2))\<^sup>2"
    using cos_double_sin [of "x / 2"] by simp
  ultimately show ?thesis by (simp add: power2_eq_square)
qed

lemma sin_half_Math_PI: "1 - 1 / 10 ^ 32 \<le> sin (Math_PI / 2) \<and> sin (Math_PI / 2) \<le> 1"
proof -
  let ?h = "(pi - Math_PI) / 2"
  have lo: "0 \<le> ?h" using pi_lower by simp
  have hi: "?h \<le> 1 / 10 ^ 16" using pi_upper by simp
  have "sin (Math_PI / 2) = cos (pi / 2 - Math_PI / 2)"
    using sin_cos_eq [of "Math_PI / 2"] by simp
  then have s: "sin (Math_PI / 2) = cos ?h" by (simp add: diff_divide_distrib)
  have "?h\<^sup>2 \<le> (1 / 10 ^ 16)\<^sup>2" by (rule power_mono [OF hi lo])
  moreover have "(1 / 10 ^ 16)\<^sup>2 \<le> (2::real) / 10 ^ 32" by (simp add: power_divide)
  ultimately have "?h\<^sup>2 \<le> 2 / 10 ^ 32" by (rule order_trans)
  then have "?h\<^sup>2 / 2 \<le> 1 / 10 ^ 32" by linarith
  with cos_near_zero [of ?h] show ?thesis unfolding s by simp
qed

lemma round64_exact:
  assumes "2 powr of_int k \<le> \<bar>x\<bar>" and "\<bar>x\<bar> < 2 powr (of_int k + 1)"
    and "x / 2 powr (of_int k - 52) = of_int n"
  shows "round64 x = x"
proof -
  have "\<bar>x / 2 powr (of_int k - 52) - of_int n\<bar> < 1 / 2" using assms(3) by simp
  from round64_near [OF assms(1,2) this]
  have "round64 x = 2 powr (of_int k - 52) * (x / 2 powr (of_int k - 52))"
    by (simp only: assms(3))
  then show ?thesis by simp
qed

lemma round64_0: "round64 0 = 0"
  by (simp add: round64_def)

lemma round64_1: "round64 1 = 1"
  by (rule round64_exact [of 0 _ "2 ^ 52"]) (simp_all add: powr_minus_divide)

lemma round64_half: "round64 (1 / 2) = 1 / 2"
  by (rule round64_exact [of "- 1" _ "2 ^ 52"]) (simp_all add: powr_minus_divide)

lemma round64_18: "round64 18 = 18"
  by (rule round64_exact [of 4 _ "18 * 2 ^ 48"]) (simp_all add: powr_minus_divide)

lemma round64_25: "round64 25 = 25"
  by (rule round64_exact [of 4 _ "25 * 2 ^ 48"]) (simp_all add: powr_minus_divide)

lemma round64_45: "round64 45 = 45"
  by (rule round64_exact [of 5 _ "45 * 2 ^ 47"]) (simp_all add: powr_minus_divide)

lemma round64_Math_PI: "round64 Math_PI = Math_PI"
  by (rule round64_exact [of 1 _ "884279719003555 * 8"])
    (simp_all add: Math_PI_def powr_minus_divide)

lemma round64_half_Math_PI: "round64 (Math_PI / 2) = Math_PI / 2"
  by (rule round64_exact [of 0 _ "884279719003555 * 8"])
    (simp_all add: Math_PI_def powr_minus_divide)

lemma arcT_values: "arcT 0 = 0 \<and> arcT 80 = 1 / 2 \<and> arcT 160 = 1"
  by (simp add: arcT_def div64_def arcSteps_def round64_0 round64_1 round64_half)

lemma Math_sin_Math_PI:
  "1201 / 10 ^ 19 \<le> Math_sin Math_PI \<and> Math_sin Math_PI \<le> 1227 / 10 ^ 19"
proof -
  let ?s = "sin Math_PI"
  have lo: "1202 / 10 ^ 19 \<le> ?s" and hi: "?s \<le> 1226 / 10 ^ 19"
    using sin_Math_PI by simp_all
  have a: "2 powr of_int (- 53) \<le> \<bar>?s\<bar>"
    using lo by (simp add: powr_minus_divide)
  have b: "\<bar>?s\<bar> < 2 powr (of_int (- 53) + 1)"
    using lo hi by (simp add: powr_minus_divide)
  have "\<bar>round64 ?s - ?s\<bar> \<le> 2 powr (of_int (- 53) - 53)"
    by (rule round64_err [OF a b])
  then have "\<bar>round64 ?s - ?s\<bar> \<le> 1 / 10 ^ 19"
    by (simp add: powr_minus_divide)
  then have "?s - 1 / 10 ^ 19 \<le> round64 ?s" and "round64 ?s \<le> ?s + 1 / 10 ^ 19"
    by linarith+
  with lo hi show ?thesis unfolding Math_sin_def by linarith
qed

lemma arcLift_0: "arcLift 0 = 0"
  by (simp add: arcLift_def mul64_def Math_sin_def round64_0)

lemma arcLift_1: "21600 / 10 ^ 19 \<le> arcLift 1 \<and> arcLift 1 \<le> 22100 / 10 ^ 19"
proof -
  let ?x = "Math_sin Math_PI * 18"
  have lo: "21618 / 10 ^ 19 \<le> ?x" and hi: "?x \<le> 22086 / 10 ^ 19"
    using Math_sin_Math_PI by simp_all
  have a: "2 powr of_int (- 49) \<le> \<bar>?x\<bar>"
    using lo by (simp add: powr_minus_divide)
  have b: "\<bar>?x\<bar> < 2 powr (of_int (- 49) + 1)"
    using lo hi by (simp add: powr_minus_divide)
  have "\<bar>round64 ?x - ?x\<bar> \<le> 2 powr (of_int (- 49) - 53)"
    by (rule round64_err [OF a b])
  then have "\<bar>round64 ?x - ?x\<bar> \<le> 1 / 10 ^ 19"
    by (simp add: powr_minus_divide)
  then have "?x - 1 / 10 ^ 19 \<le> round64 ?x" and "round64 ?x \<le> ?x + 1 / 10 ^ 19"
    by linarith+
  with lo hi have "21600 / 10 ^ 19 \<le> round64 ?x \<and> round64 ?x \<le> 22100 / 10 ^ 19"
    by linarith
  then show ?thesis
    by (simp add: arcLift_def mul64_def round64_Math_PI)
qed

lemma Math_sin_half_Math_PI: "Math_sin (Math_PI / 2) = 1"
proof (cases "sin (Math_PI / 2) = 1")
  case True
  then show ?thesis by (simp add: Math_sin_def round64_1)
next
  case False
  let ?s = "sin (Math_PI / 2)"
  have lo: "1 - 1 / 10 ^ 32 \<le> ?s" using sin_half_Math_PI by simp
  have "?s \<le> 1" by simp
  with False have hi: "?s < 1" by linarith
  have a: "2 powr of_int (- 1) \<le> \<bar>?s\<bar>"
    using lo by (simp add: powr_minus_divide)
  have b: "\<bar>?s\<bar> < 2 powr (of_int (- 1) + 1)"
    using lo hi by simp
  have q: "(2::real) powr (of_int (- 1) - 52) = 1 / 2 ^ 53"
    by (simp add: powr_minus_divide)
  have c: "\<bar>?s / 2 powr (of_int (- 1) - 52) - of_int (2 ^ 53)\<bar> < 1 / 2"
    unfolding q using lo hi by (simp add: abs_less_iff)
  have "round64 ?s = 2 powr (of_int (- 1) - 52) * of_int (2 ^ 53)"
    by (rule round64_near [OF a b c])
  then show ?thesis unfolding q by (simp add: Math_sin_def)
qed

lemma arcLift_half: "arcLift (1 / 2) = 18"
proof -
  have m: "mul64 (1 / 2) Math_PI = Math_PI / 2"
    by (simp add: mul64_def round64_half_Math_PI)
  show ?thesis
    unfolding arcLift_def m Math_sin_half_Math_PI by (simp add: mul64_def round64_18)
qed

lemma arcY_0: "arcY 0 = 45"
  by (simp add: arcY_def lerp64_def add64_def sub64_def mul64_def arcLift_0 arcStart_def arcEnd_def
      round64_0 round64_1 round64_45)

lemma lerp64_1: "lerp64 45 25 1 = 25"
  by (simp add: lerp64_def add64_def sub64_def mul64_def round64_0 round64_25)

lemma arcY_1: "arcY 1 = 25 + 1 / 2 ^ 48"
proof -
  let ?x = "25 + arcLift 1"
  have lo: "21600 / 10 ^ 19 \<le> arcLift 1" and hi: "arcLift 1 \<le> 22100 / 10 ^ 19"
    using arcLift_1 by simp_all
  have a: "2 powr of_int 4 \<le> \<bar>?x\<bar>" using lo by simp
  have b: "\<bar>?x\<bar> < 2 powr (of_int 4 + 1)" using lo hi by simp
  have q: "(2::real) powr (of_int 4 - 52) = 1 / 2 ^ 48"
    by (simp add: powr_minus_divide)
  have c: "\<bar>?x / 2 powr (of_int 4 - 52) - of_int (25 * 2 ^ 48 + 1)\<bar> < 1 / 2"
    unfolding q using lo hi by (simp add: abs_less_iff)
  have "round64 ?x = 2 powr (of_int 4 - 52) * of_int (25 * 2 ^ 48 + 1)"
    by (rule round64_near [OF a b c])
  then have "round64 ?x = 25 + 1 / 2 ^ 48" unfolding q by simp
  then show ?thesis
    using lerp64_1 by (simp add: arcY_def add64_def arcStart_def arcEnd_def)
qed

lemma arcPts_ideal_lift:
  "v3y (arcPts ! 0) = 45 \<and> v3y (arcPts ! 80) = 35 + 18 \<and> v3y (arcPts ! 160) = 25"
proof -
  have a: "(0::nat) \<le> arcSteps" and b: "(80::nat) \<le> arcSteps" and c: "(160::nat) \<le> arcSteps"
    by (simp_all add: arcSteps_def)
  have h: "sin (pi / 2) = 1" by simp
  show ?thesis
    using h unfolding arcPts_nth [OF a] arcPts_nth [OF b] arcPts_nth [OF c] arcSample_eq
    by simp
qed

text \<open>
  C7 as stated fails. In binary64 the lift at \<open>t = 1\<close> (sample 160) is not 0, because
  \<open>Math.PI\<close> is not \<open>\<pi>\<close>, and the last sample's \<open>y\<close> is not the endpoint's 25. (Over the
  reals, \<open>arcPts_ideal_lift\<close>, both would be exact.)
\<close>

theorem arcLift_at_one_nonzero:
  "arcT 160 = 1 \<and> arcLift (arcT 160) \<noteq> 0 \<and> arcY (arcT 160) \<noteq> numberOf (v2y arcEnd)"
proof -
  have t: "arcT 160 = 1" using arcT_values by simp
  have "0 < arcLift 1" using arcLift_1 by simp
  then have l: "arcLift 1 \<noteq> 0" by simp
  have y: "arcY 1 \<noteq> numberOf (v2y arcEnd)"
    unfolding arcY_1 by (simp add: arcEnd_def)
  from t l y show ?thesis by simp
qed

text \<open>
  C7, as the code has it. Computed in binary64 (with \<open>Math.PI\<close> the double nearest \<open>\<pi>\<close> and
  a correctly rounded \<open>Math.sin\<close>), the lift \<open>Math.sin(t * Math.PI) * 18\<close> is exactly 0 at
  \<open>t = 0\<close> (sample 0) and exactly 18 at \<open>t = 0.5\<close> (sample 80); at \<open>t = 1\<close> (sample 160) it is
  a positive number between \<open>2.16 * 10\<^sup>-\<^sup>1\<^sup>5\<close> and \<open>2.21 * 10\<^sup>-\<^sup>1\<^sup>5\<close>. The first sample's \<open>y\<close> is
  exactly the start's 45; the last sample's \<open>y\<close> is \<open>25 + 2\<^sup>-\<^sup>4\<^sup>8\<close>, one unit in the last
  place above the end's 25.
\<close>

theorem arcLift_in_binary64:
  "arcT 0 = 0 \<and> arcT 80 = 1 / 2 \<and> arcT 160 = 1
   \<and> arcLift (arcT 0) = 0
   \<and> arcLift (arcT 80) = 18
   \<and> 216 / 10 ^ 17 \<le> arcLift (arcT 160) \<and> arcLift (arcT 160) \<le> 221 / 10 ^ 17
   \<and> arcY (arcT 0) = 45
   \<and> arcY (arcT 160) = 25 + 1 / 2 ^ 48"
proof -
  have t: "arcT 0 = 0" "arcT 80 = 1 / 2" "arcT 160 = 1" using arcT_values by simp_all
  have "21600 / 10 ^ 19 \<le> arcLift 1" and "arcLift 1 \<le> 22100 / 10 ^ 19"
    using arcLift_1 by simp_all
  then have b: "216 / 10 ^ 17 \<le> arcLift 1" "arcLift 1 \<le> 221 / 10 ^ 17" by simp_all
  show ?thesis
    unfolding t using b arcLift_0 arcLift_half arcY_0 arcY_1 by simp
qed

end
